theory Spec2Isabelle
  imports Complex_Main "HOL-Library.AList"
begin

section \<open>The in-memory graph store of app.py\<close>

subsection \<open>Python values\<close>

text \<open>
  The records of the store are \<^verbatim>\<open>Dict[str, Any]\<close>. The values that reach them are
  numbers, strings, \<^verbatim>\<open>None\<close> and the lists and objects of a JSON body.
  A number is an \<^verbatim>\<open>int\<close>, which is unbounded (a \<^verbatim>\<open>bool\<close> is an \<^verbatim>\<open>int\<close>, 0 or 1), or a
  \<^verbatim>\<open>float\<close>, which is a double: a finite value, an infinity or NaN. The two zeros of the
  doubles compare equal and are one value here.
\<close>

datatype pyfloat = Finite real | PosInf | NegInf | NaN

datatype number = PInt int | PFloat pyfloat

datatype pyval =
    PNone
  | PNum number
  | PStr string
  | PList "pyval list"
  | PDict "(string \<times> pyval) list"

datatype error = KeyError | TypeError | OverflowError

text \<open>
  A record is only ever read and written by key, so it is a map from field names to values.
  The two dictionaries of the store are iterated (\<^verbatim>\<open>.items()\<close>, \<^verbatim>\<open>.values()\<close>), so they
  are association lists in insertion order, as a Python dict keeps them.
\<close>

type_synonym pyrecord = "string \<rightharpoonup> pyval"
type_synonym pydict = "(int \<times> pyrecord) list"

text \<open>\<^verbatim>\<open>k in d\<close>\<close>

definition contains :: "int \<Rightarrow> pydict \<Rightarrow> bool" where
  "contains k d \<longleftrightarrow> k \<in> fst ` set d"

text \<open>\<^verbatim>\<open>d[k].update(updates)\<close>: the record stored under \<open>k\<close> is changed in place.\<close>

definition record_update :: "int \<Rightarrow> pyrecord \<Rightarrow> pydict \<Rightarrow> pydict" where
  "record_update k updates d = AList.map_entry k (\<lambda>r. r ++ updates) d"

text \<open>\<^verbatim>\<open>d[k][f] = v\<close>\<close>

definition record_set :: "int \<Rightarrow> string \<Rightarrow> pyval \<Rightarrow> pydict \<Rightarrow> pydict" where
  "record_set k f v d = AList.map_entry k (\<lambda>r. r(f \<mapsto> v)) d"

text \<open>
  \<^verbatim>\<open>v == n\<close> for an integer \<open>n\<close>: Python compares an \<^verbatim>\<open>int\<close> and a \<^verbatim>\<open>float\<close> by their
  exact values (\<^verbatim>\<open>1 == 1.0\<close>), and a number is equal to no string, list, object or
  \<^verbatim>\<open>None\<close>.
\<close>

fun py_eq_int :: "pyval \<Rightarrow> int \<Rightarrow> bool" where
  "py_eq_int (PNum (PInt i)) n \<longleftrightarrow> i = n"
| "py_eq_int (PNum (PFloat (Finite r))) n \<longleftrightarrow> r = of_int n"
| "py_eq_int _ n \<longleftrightarrow> False"




subsection \<open>GraphData\<close>

record GraphData =
  nodes_dict :: pydict
  edges_dict :: pydict
  node_counter :: int
  edge_counter :: int

text \<open>\<^verbatim>\<open>GraphData.__init__\<close>\<close>

definition GraphData_init :: GraphData where
  "GraphData_init = \<lparr>nodes_dict = [], edges_dict = [], node_counter = 1, edge_counter = 1\<rparr>"

definition get_nodes_list :: "GraphData \<Rightarrow> pyrecord list" where
  "get_nodes_list g = map snd (nodes_dict g)"


text \<open>
  The parameters that the source annotates \<^verbatim>\<open>float\<close> take any number (their defaults,
  100 and 0, are integers) and are stored as they come.
\<close>

definition node_properties :: "int \<Rightarrow> string \<Rightarrow> number \<Rightarrow> number \<Rightarrow> pyrecord" where
  "node_properties c name x y =
     [''id'' \<mapsto> PNum (PInt c), ''name'' \<mapsto> PStr name, ''x'' \<mapsto> PNum x, ''y'' \<mapsto> PNum y,
      ''created_at'' \<mapsto> PNone, ''metadata'' \<mapsto> PDict []]"

definition add_node ::
  "string \<Rightarrow> number \<Rightarrow> number \<Rightarrow> GraphData \<Rightarrow> pyrecord \<times> GraphData" where
  "add_node name x y g =
     (let props = node_properties (node_counter g) name x y in
      (props, g\<lparr>nodes_dict := AList.update (node_counter g) props (nodes_dict g),
                node_counter := node_counter g + 1\<rparr>))"

definition update_node :: "int \<Rightarrow> pyrecord \<Rightarrow> GraphData \<Rightarrow> pyrecord option \<times> GraphData" where
  "update_node node_id updates g =
     (if contains node_id (nodes_dict g)
      then (let nd = record_update node_id updates (nodes_dict g) in
            (map_of nd node_id, g\<lparr>nodes_dict := nd\<rparr>))
      else (None, g))"

text \<open>
  The condition of the list comprehension in \<^verbatim>\<open>delete_node\<close>:
  \<^verbatim>\<open>edge['from'] == node_id or edge['to'] == node_id\<close>. A subscript on a missing key
  raises \<^verbatim>\<open>KeyError\<close>; \<^verbatim>\<open>or\<close> does not evaluate its right operand when the left one holds.
\<close>

definition incident :: "int \<Rightarrow> pyrecord \<Rightarrow> error + bool" where
  "incident node_id edge =
     (case edge ''from'' of
        None \<Rightarrow> Inl KeyError
      | Some f \<Rightarrow>
          if py_eq_int f node_id then Inr True
          else (case edge ''to'' of
                  None \<Rightarrow> Inl KeyError
                | Some t \<Rightarrow> Inr (py_eq_int t node_id)))"

fun edges_to_remove :: "int \<Rightarrow> pydict \<Rightarrow> error + int list" where
  "edges_to_remove node_id [] = Inr []"
| "edges_to_remove node_id ((edge_id, edge) # rest) =
     (case incident node_id edge of
        Inl e \<Rightarrow> Inl e
      | Inr b \<Rightarrow>
          (case edges_to_remove node_id rest of
             Inl e \<Rightarrow> Inl e
           | Inr ids \<Rightarrow> Inr (if b then edge_id # ids else ids)))"

text \<open>
  The loop \<^verbatim>\<open>for edge_id in edges_to_remove: del self.edges_dict[edge_id]\<close>.
  \<^verbatim>\<open>del\<close> of a missing key raises \<^verbatim>\<open>KeyError\<close> and leaves the deletions done so far.
\<close>

fun del_all :: "int list \<Rightarrow> pydict \<Rightarrow> error option \<times> pydict" where
  "del_all [] d = (None, d)"
| "del_all (k # ks) d =
     (if contains k d then del_all ks (AList.delete k d) else (Some KeyError, d))"

text \<open>
  \<^verbatim>\<open>delete_node\<close> returns a bool or raises; in both cases the store is left as the
  statements that ran have changed it.
\<close>

definition delete_node :: "int \<Rightarrow> GraphData \<Rightarrow> (error + bool) \<times> GraphData" where
  "delete_node node_id g =
     (if contains node_id (nodes_dict g)
      then (let g1 = g\<lparr>nodes_dict := AList.delete node_id (nodes_dict g)\<rparr> in
            case edges_to_remove node_id (edges_dict g1) of
              Inl e \<Rightarrow> (Inl e, g1)
            | Inr ids \<Rightarrow>
                (case del_all ids (edges_dict g1) of
                   (Some e, d) \<Rightarrow> (Inl e, g1\<lparr>edges_dict := d\<rparr>)
                 | (None, d) \<Rightarrow> (Inr True, g1\<lparr>edges_dict := d\<rparr>)))
      else (Inr False, g))"

definition edge_properties ::
  "int \<Rightarrow> int \<Rightarrow> int \<Rightarrow> number \<Rightarrow> number \<Rightarrow> string \<Rightarrow> string \<Rightarrow> pyrecord" where
  "edge_properties c from_node to_node duration cost prerequisites postrequisites =
     [''id'' \<mapsto> PNum (PInt c), ''from'' \<mapsto> PNum (PInt from_node),
      ''to'' \<mapsto> PNum (PInt to_node), ''duration'' \<mapsto> PNum duration, ''cost'' \<mapsto> PNum cost,
      ''prerequisites'' \<mapsto> PStr prerequisites, ''postrequisites'' \<mapsto> PStr postrequisites,
      ''weight'' \<mapsto> PNum duration, ''metadata'' \<mapsto> PDict []]"

definition add_edge ::
  "int \<Rightarrow> int \<Rightarrow> number \<Rightarrow> number \<Rightarrow> string \<Rightarrow> string \<Rightarrow> GraphData \<Rightarrow>
   pyrecord option \<times> GraphData" where
  "add_edge from_node to_node duration cost prerequisites postrequisites g =
     (if \<not> contains from_node (nodes_dict g) \<or> \<not> contains to_node (nodes_dict g)
      then (None, g)
      else (let props = edge_properties (edge_counter g) from_node to_node duration cost
                          prerequisites postrequisites in
            (Some props, g\<lparr>edges_dict := AList.update (edge_counter g) props (edges_dict g),
                           edge_counter := edge_counter g + 1\<rparr>)))"

definition update_edge :: "int \<Rightarrow> pyrecord \<Rightarrow> GraphData \<Rightarrow> pyrecord option \<times> GraphData" where
  "update_edge edge_id updates g =
     (if contains edge_id (edges_dict g)
      then (let ed1 = record_update edge_id updates (edges_dict g);
                ed2 = (case updates ''duration'' of
                         None \<Rightarrow> ed1
                       | Some d \<Rightarrow> record_set edge_id ''weight'' d ed1) in
            (map_of ed2 edge_id, g\<lparr>edges_dict := ed2\<rparr>))
      else (None, g))"

definition delete_edge :: "int \<Rightarrow> GraphData \<Rightarrow> bool \<times> GraphData" where
  "delete_edge edge_id g =
     (if contains edge_id (edges_dict g)
      then (True, g\<lparr>edges_dict := AList.delete edge_id (edges_dict g)\<rparr>)
      else (False, g))"

definition get_node_by_id :: "int \<Rightarrow> GraphData \<Rightarrow> pyrecord option" where
  "get_node_by_id node_id g = map_of (nodes_dict g) node_id"

definition get_edge_by_id :: "int \<Rightarrow> GraphData \<Rightarrow> pyrecord option" where
  "get_edge_by_id edge_id g = map_of (edges_dict g) edge_id"

definition clear_all :: "GraphData \<Rightarrow> GraphData" where
  "clear_all g = g\<lparr>nodes_dict := [], edges_dict := [], node_counter := 1, edge_counter := 1\<rparr>"

subsection \<open>Statistics\<close>




subsection \<open>Calls and reachable states\<close>

datatype call =
    AddNode string number number
  | UpdateNode int pyrecord
  | DeleteNode int
  | AddEdge int int number number string string
  | UpdateEdge int pyrecord
  | DeleteEdge int
  | ClearAll

text \<open>The store after one call, whatever the call returned or raised.\<close>

fun exec :: "call \<Rightarrow> GraphData \<Rightarrow> GraphData" where
  "exec (AddNode name x y) g = snd (add_node name x y g)"
| "exec (UpdateNode node_id updates) g = snd (update_node node_id updates g)"
| "exec (DeleteNode node_id) g = snd (delete_node node_id g)"
| "exec (AddEdge f t duration cost pre post) g = snd (add_edge f t duration cost pre post g)"
| "exec (UpdateEdge edge_id updates) g = snd (update_edge edge_id updates g)"
| "exec (DeleteEdge edge_id) g = snd (delete_edge edge_id g)"
| "exec ClearAll g = clear_all g"

definition run :: "call list \<Rightarrow> GraphData \<Rightarrow> GraphData" where
  "run cs g = fold exec cs g"

inductive reachable :: "GraphData \<Rightarrow> bool" where
  reachable_init: "reachable GraphData_init"
| reachable_exec: "reachable g \<Longrightarrow> reachable (exec c g)"

text \<open>The records that the \<^verbatim>\<open>add_node\<close> calls of a sequence of calls return, in order.\<close>

fun added_nodes :: "call list \<Rightarrow> GraphData \<Rightarrow> pyrecord list" where
  "added_nodes [] g = []"
| "added_nodes (AddNode name x y # cs) g =
     fst (add_node name x y g) # added_nodes cs (exec (AddNode name x y) g)"
| "added_nodes (c # cs) g = added_nodes cs (exec c g)"

subsection \<open>Notions used to state the properties\<close>

text \<open>
  A field equals a node id when it holds that integer, or the float of the same value.
  An edge is incident to a node id when its \<^verbatim>\<open>from\<close> or its \<^verbatim>\<open>to\<close> field equals that id.
\<close>

definition equals_id :: "pyval option \<Rightarrow> int \<Rightarrow> bool" where
  "equals_id v n \<longleftrightarrow>
     v = Some (PNum (PInt n)) \<or> v = Some (PNum (PFloat (Finite (of_int n))))"

definition touches :: "int \<Rightarrow> pyrecord \<Rightarrow> bool" where
  "touches node_id edge \<longleftrightarrow>
     equals_id (edge ''from'') node_id \<or> equals_id (edge ''to'') node_id"

text \<open>Every record of a dictionary has the two fields that \<^verbatim>\<open>delete_node\<close> subscripts.\<close>

definition has_endpoints :: "pydict \<Rightarrow> bool" where
  "has_endpoints d \<longleftrightarrow> (\<forall>e \<in> snd ` set d. e ''from'' \<noteq> None \<and> e ''to'' \<noteq> None)"

definition keys_below :: "int \<Rightarrow> pydict \<Rightarrow> bool" where
  "keys_below c d \<longleftrightarrow> (\<forall>k \<in> fst ` set d. k < c)"

text \<open>
  The invariant of the store: a Python dict holds each key once, every edge record has its
  endpoints, and the counters are above every key in use.
\<close>

definition wf :: "GraphData \<Rightarrow> bool" where
  "wf g \<longleftrightarrow>
     distinct (map fst (nodes_dict g)) \<and> distinct (map fst (edges_dict g)) \<and>
     has_endpoints (edges_dict g) \<and>
     keys_below (node_counter g) (nodes_dict g) \<and>
     keys_below (edge_counter g) (edges_dict g)"




text \<open>The calls of the spec's worked example, and the same calls followed by an update
  that stores a string as the cost of the edge.\<close>

definition example_calls :: "call list" where
  "example_calls =
     [AddNode ''A'' (PInt 100) (PInt 100), AddNode ''B'' (PInt 100) (PInt 100),
      AddEdge 1 2 (PInt 3) (PInt 10) [] []]"


section \<open>Auxiliary facts\<close>

subsection \<open>Association lists\<close>

lemma contains_map_of: "contains k d \<longleftrightarrow> map_of d k \<noteq> None"
  by (simp add: contains_def map_of_eq_None_iff)

lemma records_update: "snd ` set (AList.update k r d) \<subseteq> insert r (snd ` set d)"
  by (induction d) auto

lemma records_map_entry:
  "snd ` set (AList.map_entry k f d) \<subseteq> snd ` set d \<union> f ` snd ` set d"
  by (induction d) auto

lemma keys_map_entry: "map fst (AList.map_entry k f d) = map fst d"
  by (induction d) auto

lemma filter_keys_of_filter:
  "distinct (map fst d) \<Longrightarrow>
   filter (\<lambda>p. fst p \<notin> set (map fst (filter P d))) d = filter (\<lambda>p. \<not> P p) d"
proof (rule filter_cong [OF refl])
  fix p assume dist: "distinct (map fst d)" and p: "p \<in> set d"
  have "fst p \<in> fst ` set (filter P d) \<longleftrightarrow> P p"
  proof
    assume "fst p \<in> fst ` set (filter P d)"
    then obtain q where q: "q \<in> set d" "P q" "fst q = fst p" by auto
    from dist p q(1) q(3) have "q = p" by (metis eq_key_imp_eq_value prod.collapse)
    with q(2) show "P p" by simp
  next
    assume "P p" with p show "fst p \<in> fst ` set (filter P d)" by auto
  qed
  then show "(fst p \<notin> set (map fst (filter P d))) = (\<not> P p)" by simp
qed

lemma keys_below_update: "keys_below c d \<Longrightarrow> keys_below (c + 1) (AList.update c r d)"
  unfolding keys_below_def AList.dom_update by auto

lemma keys_below_map_entry: "keys_below c d \<Longrightarrow> keys_below c (AList.map_entry k f d)"
  unfolding keys_below_def AList.dom_map_entry by simp

lemma keys_below_filter: "keys_below c d \<Longrightarrow> keys_below c (filter P d)"
  unfolding keys_below_def by auto

lemma keys_below_delete: "keys_below c d \<Longrightarrow> keys_below c (AList.delete k d)"
  unfolding AList.delete_eq by (rule keys_below_filter)

lemma keys_below_fresh: "keys_below c d \<Longrightarrow> \<not> contains c d"
  unfolding keys_below_def contains_def by auto

lemma has_endpoints_update:
  assumes "has_endpoints d" "r ''from'' \<noteq> None" "r ''to'' \<noteq> None"
  shows "has_endpoints (AList.update k r d)"
  unfolding has_endpoints_def
proof
  fix e assume "e \<in> snd ` set (AList.update k r d)"
  then have "e = r \<or> e \<in> snd ` set d" using records_update [of k r d] by blast
  then show "e ''from'' \<noteq> None \<and> e ''to'' \<noteq> None"
    using assms unfolding has_endpoints_def by blast
qed

lemma has_endpoints_map_entry:
  assumes "has_endpoints d"
    and "\<And>r. r ''from'' \<noteq> None \<Longrightarrow> r ''to'' \<noteq> None \<Longrightarrow>
           f r ''from'' \<noteq> None \<and> f r ''to'' \<noteq> None"
  shows "has_endpoints (AList.map_entry k f d)"
  unfolding has_endpoints_def
proof
  fix e assume "e \<in> snd ` set (AList.map_entry k f d)"
  then have "e \<in> snd ` set d \<or> (\<exists>r \<in> snd ` set d. e = f r)"
    using records_map_entry [of k f d] by blast
  then show "e ''from'' \<noteq> None \<and> e ''to'' \<noteq> None"
    using assms unfolding has_endpoints_def by blast
qed

lemma has_endpoints_filter: "has_endpoints d \<Longrightarrow> has_endpoints (filter P d)"
  unfolding has_endpoints_def by auto

lemma has_endpoints_delete: "has_endpoints d \<Longrightarrow> has_endpoints (AList.delete k d)"
  unfolding AList.delete_eq by (rule has_endpoints_filter)

subsection \<open>The cascade of \<^verbatim>\<open>delete_node\<close>\<close>

lemma py_eq_int_iff: "py_eq_int v n \<longleftrightarrow> equals_id (Some v) n"
  by (cases "(v, n)" rule: py_eq_int.cases) (auto simp: equals_id_def)

lemma incident_touches:
  assumes "e ''from'' \<noteq> None" "e ''to'' \<noteq> None"
  shows "incident n e = Inr (touches n e)"
proof -
  from assms obtain f t where ft: "e ''from'' = Some f" "e ''to'' = Some t" by blast
  show ?thesis unfolding incident_def touches_def ft py_eq_int_iff by simp
qed

lemma edges_to_remove_filter:
  "has_endpoints d \<Longrightarrow>
   edges_to_remove n d = Inr (map fst (filter (\<lambda>p. touches n (snd p)) d))"
proof (induction d)
  case Nil
  then show ?case by simp
next
  case (Cons p d)
  obtain k e where p: "p = (k, e)" by (cases p)
  from Cons.prems have e: "e ''from'' \<noteq> None" "e ''to'' \<noteq> None" and d: "has_endpoints d"
    unfolding has_endpoints_def p by simp_all
  show ?case using Cons.IH [OF d] incident_touches [OF e, of n] by (simp add: p)
qed

lemma del_all_filter:
  "distinct ks \<Longrightarrow> set ks \<subseteq> fst ` set d \<Longrightarrow>
   del_all ks d = (None, filter (\<lambda>p. fst p \<notin> set ks) d)"
proof (induction ks arbitrary: d)
  case Nil
  then show ?case by simp
next
  case (Cons k ks)
  have in_d: "contains k d" using Cons.prems by (simp add: contains_def)
  have sub: "set ks \<subseteq> fst ` set (AList.delete k d)"
  proof
    fix x assume x: "x \<in> set ks"
    with Cons.prems have "x \<noteq> k" "x \<in> fst ` set d" by auto
    then show "x \<in> fst ` set (AList.delete k d)" by (force simp: AList.delete_eq)
  qed
  have "del_all (k # ks) d = del_all ks (AList.delete k d)" using in_d by simp
  also have "\<dots> = (None, filter (\<lambda>p. fst p \<notin> set ks) (AList.delete k d))"
    using Cons.IH [OF _ sub] Cons.prems by simp
  also have "filter (\<lambda>p. fst p \<notin> set ks) (AList.delete k d) =
             filter (\<lambda>p. fst p \<notin> set (k # ks)) d"
    by (auto simp: AList.delete_eq intro: filter_cong)
  finally show ?case .
qed

lemma delete_node_present:
  assumes "contains n (nodes_dict g)" "distinct (map fst (edges_dict g))"
    "has_endpoints (edges_dict g)"
  shows "delete_node n g =
           (Inr True, g\<lparr>nodes_dict := AList.delete n (nodes_dict g),
                        edges_dict := filter (\<lambda>p. \<not> touches n (snd p)) (edges_dict g)\<rparr>)"
proof -
  let ?ks = "map fst (filter (\<lambda>p. touches n (snd p)) (edges_dict g))"
  have r: "edges_to_remove n (edges_dict g) = Inr ?ks"
    by (rule edges_to_remove_filter [OF assms(3)])
  have dk: "distinct ?ks" using assms(2) by (rule distinct_map_filter)
  have sub: "set ?ks \<subseteq> fst ` set (edges_dict g)" by auto
  have "del_all ?ks (edges_dict g) = (None, filter (\<lambda>p. \<not> touches n (snd p)) (edges_dict g))"
    using del_all_filter [OF dk sub]
      filter_keys_of_filter [OF assms(2), of "\<lambda>p. touches n (snd p)"]
    by simp
  then show ?thesis using assms(1) r by (simp add: delete_node_def Let_def)
qed

lemma delete_node_absent: "\<not> contains n (nodes_dict g) \<Longrightarrow> delete_node n g = (Inr False, g)"
  by (simp add: delete_node_def)

subsection \<open>The invariant holds in every reachable state\<close>

lemma edge_properties_endpoints:
  "edge_properties c f t d co p q ''from'' \<noteq> None \<and>
   edge_properties c f t d co p q ''to'' \<noteq> None"
  by (simp add: edge_properties_def)

lemma wf_init: "wf GraphData_init"
  by (simp add: wf_def GraphData_init_def has_endpoints_def keys_below_def)

lemma wf_add_node: "wf g \<Longrightarrow> wf (snd (add_node name x y g))"
  by (simp add: wf_def add_node_def Let_def AList.distinct_update keys_below_update)

lemma wf_update_node: "wf g \<Longrightarrow> wf (snd (update_node n u g))"
  by (simp add: wf_def update_node_def Let_def record_update_def
      AList.distinct_map_entry keys_below_map_entry)

lemma wf_delete_node: "wf g \<Longrightarrow> wf (snd (delete_node n g))"
proof (cases "contains n (nodes_dict g)")
  case True
  assume w: "wf g"
  then have "delete_node n g =
           (Inr True, g\<lparr>nodes_dict := AList.delete n (nodes_dict g),
                        edges_dict := filter (\<lambda>p. \<not> touches n (snd p)) (edges_dict g)\<rparr>)"
    using True by (intro delete_node_present) (simp_all add: wf_def)
  then show ?thesis using w
    by (simp add: wf_def AList.distinct_delete distinct_map_filter has_endpoints_filter
        keys_below_delete keys_below_filter)
next
  case False
  assume "wf g"
  then show ?thesis using False by (simp add: delete_node_absent)
qed

lemma wf_add_edge: "wf g \<Longrightarrow> wf (snd (add_edge f t d c p q g))"
  using edge_properties_endpoints [of "edge_counter g" f t d c p q]
  by (simp add: wf_def add_edge_def Let_def AList.distinct_update keys_below_update
      has_endpoints_update)

lemma wf_update_edge: "wf g \<Longrightarrow> wf (snd (update_edge k u g))"
proof -
  assume w: "wf g"
  have 1: "has_endpoints (record_update k u (edges_dict g))"
    unfolding record_update_def using w
    by (intro has_endpoints_map_entry) (auto simp: wf_def map_add_def split: option.splits)
  have 2: "has_endpoints (record_set k ''weight'' v (record_update k u (edges_dict g)))" for v
    unfolding record_set_def using 1 by (intro has_endpoints_map_entry) simp_all
  show ?thesis using w 1 2
    by (simp add: wf_def update_edge_def Let_def record_update_def record_set_def
        AList.distinct_map_entry keys_below_map_entry split: option.splits)
qed

lemma wf_delete_edge: "wf g \<Longrightarrow> wf (snd (delete_edge k g))"
  by (simp add: wf_def delete_edge_def AList.distinct_delete keys_below_delete
      has_endpoints_delete)

lemma wf_clear_all: "wf (clear_all g)"
  by (simp add: wf_def clear_all_def has_endpoints_def keys_below_def)

lemma wf_exec: "wf g \<Longrightarrow> wf (exec c g)"
  by (cases c)
    (simp_all add: wf_add_node wf_update_node wf_delete_node wf_add_edge wf_update_edge
      wf_delete_edge wf_clear_all)

lemma reachable_wf: "reachable g \<Longrightarrow> wf g"
  by (induction rule: reachable.induct) (simp_all add: wf_init wf_exec)

lemma reachable_run: "reachable g \<Longrightarrow> reachable (run cs g)"
  unfolding run_def by (induction cs arbitrary: g) (simp_all add: reachable_exec)

subsection \<open>The worked example\<close>

lemma example_nodes:
  "nodes_dict (run example_calls GraphData_init) =
     [(1, node_properties 1 ''A'' (PInt 100) (PInt 100)), (2, node_properties 2 ''B'' (PInt 100) (PInt 100))]"
  by (simp add: run_def example_calls_def GraphData_init_def add_node_def add_edge_def
      contains_def Let_def)

lemma example_edges:
  "edges_dict (run example_calls GraphData_init) = [(1, edge_properties 1 1 2 (PInt 3) (PInt 10) [] [])]"
  by (simp add: run_def example_calls_def GraphData_init_def add_node_def add_edge_def
      contains_def Let_def)

lemma example_counters:
  "node_counter (run example_calls GraphData_init) = 3 \<and>
   edge_counter (run example_calls GraphData_init) = 2"
  by (simp add: run_def example_calls_def GraphData_init_def add_node_def add_edge_def
      contains_def Let_def)

subsection \<open>Lookups after an update in place, and deletion\<close>

lemma map_of_map_entry_same:
  "map_of d k = Some r \<Longrightarrow> map_of (AList.map_entry k f d) k = Some (f r)"
  by (simp add: AList.map_of_map_entry)

lemma map_of_map_entry_other:
  "k' \<noteq> k \<Longrightarrow> map_of (AList.map_entry k f d) k' = map_of d k'"
  by (simp add: AList.map_of_map_entry)

lemma delete_length:
  "distinct (map fst d) \<Longrightarrow> contains k d \<Longrightarrow> length (AList.delete k d) + 1 = length d"
proof (induction d)
  case Nil
  then show ?case by (simp add: contains_def)
next
  case (Cons p d)
  show ?case
  proof (cases "fst p = k")
    case True
    with Cons.prems have "k \<notin> fst ` set d" by auto
    then have "AList.delete k d = d" by simp
    with True show ?thesis by simp
  next
    case False
    with Cons.prems have "distinct (map fst d)" "contains k d" by (auto simp: contains_def)
    with Cons.IH False show ?thesis by simp
  qed
qed

subsection \<open>Node ids along a sequence of calls\<close>

lemma add_node_result:
  "fst (add_node name x y g) ''id'' = Some (PNum (PInt (node_counter g))) \<and>
   map_of (nodes_dict (snd (add_node name x y g))) (node_counter g) =
     Some (fst (add_node name x y g)) \<and>
   node_counter (snd (add_node name x y g)) = node_counter g + 1"
  by (simp add: add_node_def Let_def node_properties_def AList.update_conv')

lemma node_counter_delete_node: "node_counter (snd (delete_node n g)) = node_counter g"
  by (simp add: delete_node_def Let_def split: sum.splits prod.splits option.splits)

lemma node_counter_exec:
  "node_counter (exec c g) =
     (case c of AddNode name x y \<Rightarrow> node_counter g + 1 | ClearAll \<Rightarrow> 1 | _ \<Rightarrow> node_counter g)"
  by (cases c)
    (simp_all add: add_node_def update_node_def node_counter_delete_node add_edge_def
      update_edge_def delete_edge_def clear_all_def Let_def)

lemma added_nodes_ids:
  "ClearAll \<notin> set cs \<Longrightarrow>
   map (\<lambda>p. p ''id'') (added_nodes cs g) =
     map (\<lambda>i. Some (PNum (PInt i)))
       [node_counter g .. node_counter g + int (length (added_nodes cs g)) - 1] \<and>
   node_counter (run cs g) = node_counter g + int (length (added_nodes cs g))"
proof (induction cs arbitrary: g)
  case Nil
  then show ?case by (simp add: run_def)
next
  case (Cons c cs)
  from Cons.prems have nc: "ClearAll \<notin> set cs" and c: "c \<noteq> ClearAll" by auto
  note IH = Cons.IH [OF nc, of "exec c g"]
  have run: "run (c # cs) g = run cs (exec c g)" by (simp add: run_def)
  show ?case
  proof (cases "\<exists>name x y. c = AddNode name x y")
    case True
    then obtain name x y where a: "c = AddNode name x y" by blast
    let ?g = "snd (add_node name x y g)"
    let ?n = "int (length (added_nodes cs ?g))"
    have ex: "exec c g = ?g" by (simp add: a)
    have cnt: "node_counter ?g = node_counter g + 1"
      using add_node_result by blast
    have up: "[node_counter g .. node_counter g + ?n] =
              node_counter g # [1 + node_counter g .. node_counter g + ?n]"
      by (subst upto_rec1) (simp_all add: algebra_simps)
    have hd: "fst (add_node name x y g) ''id'' = Some (PNum (PInt (node_counter g)))"
      using add_node_result by blast
    have added: "added_nodes (c # cs) g = fst (add_node name x y g) # added_nodes cs ?g"
      by (simp add: a)
    have len: "int (length (added_nodes (c # cs) g)) = ?n + 1"
      unfolding added by simp
    show ?thesis
      using IH hd unfolding run len ex cnt added by (simp add: algebra_simps up)
  next
    case False
    then have same: "added_nodes (c # cs) g = added_nodes cs (exec c g)"
      by (cases c) simp_all
    have cnt: "node_counter (exec c g) = node_counter g"
      using False c node_counter_exec [of c g] by (cases c) simp_all
    show ?thesis using IH unfolding run same by (simp add: cnt)
  qed
qed

subsection \<open>Statistics\<close>








subsection \<open>Appending under a new key\<close>

lemma update_fresh: "k \<notin> fst ` set d \<Longrightarrow> AList.update k v d = d @ [(k, v)]"
  by (induction d) auto

lemma delete_filter: "AList.delete k d = filter (\<lambda>p. fst p \<noteq> k) d"
  by (auto simp: AList.delete_eq intro: filter_cong)

subsection \<open>Updates of a record that is present\<close>

lemma map_of_record_update:
  "map_of d k = Some r \<Longrightarrow> map_of (record_update k u d) k = Some (r ++ u)"
  unfolding record_update_def by (rule map_of_map_entry_same)

lemma map_of_record_update_other:
  "k' \<noteq> k \<Longrightarrow> map_of (record_update k u d) k' = map_of d k'"
  unfolding record_update_def by (rule map_of_map_entry_other)

lemma map_of_record_set:
  "map_of d k = Some r \<Longrightarrow> map_of (record_set k f v d) k = Some (r(f \<mapsto> v))"
  unfolding record_set_def by (rule map_of_map_entry_same)

lemma map_of_record_set_other:
  "k' \<noteq> k \<Longrightarrow> map_of (record_set k f v d) k' = map_of d k'"
  unfolding record_set_def by (rule map_of_map_entry_other)

lemma update_node_absent:
  "\<not> contains n (nodes_dict g) \<Longrightarrow> update_node n u g = (None, g)"
  by (simp add: update_node_def)

lemma update_node_present:
  assumes "map_of (nodes_dict g) n = Some r"
  shows "update_node n u g = (Some (r ++ u), g\<lparr>nodes_dict := record_update n u (nodes_dict g)\<rparr>)"
proof -
  have "contains n (nodes_dict g)" using assms by (simp add: contains_map_of)
  then show ?thesis using map_of_record_update [OF assms, of u]
    by (simp add: update_node_def Let_def)
qed

text \<open>The edge record after \<^verbatim>\<open>update_edge\<close>: the merge, then the weight when a duration came.\<close>

lemma update_edge_absent:
  "\<not> contains k (edges_dict g) \<Longrightarrow> update_edge k u g = (None, g)"
  by (simp add: update_edge_def)

lemma update_edge_present_plain:
  assumes "map_of (edges_dict g) k = Some r" and "u ''duration'' = None"
  shows "update_edge k u g = (Some (r ++ u), g\<lparr>edges_dict := record_update k u (edges_dict g)\<rparr>)"
proof -
  have "contains k (edges_dict g)" using assms(1) by (simp add: contains_map_of)
  then show ?thesis using map_of_record_update [OF assms(1), of u] assms(2)
    by (simp add: update_edge_def Let_def)
qed

lemma update_edge_present_duration:
  assumes "map_of (edges_dict g) k = Some r" and "u ''duration'' = Some d"
  shows "update_edge k u g =
           (Some ((r ++ u)(''weight'' \<mapsto> d)),
            g\<lparr>edges_dict := record_set k ''weight'' d (record_update k u (edges_dict g))\<rparr>)"
proof -
  have "contains k (edges_dict g)" using assms(1) by (simp add: contains_map_of)
  then show ?thesis
    using map_of_record_set [OF map_of_record_update [OF assms(1), of u], of "''weight''" d] assms(2)
    by (simp add: update_edge_def Let_def)
qed

lemma update_node_frame:
  "edges_dict (snd (update_node n u g)) = edges_dict g \<and>
   node_counter (snd (update_node n u g)) = node_counter g \<and>
   edge_counter (snd (update_node n u g)) = edge_counter g \<and>
   map fst (nodes_dict (snd (update_node n u g))) = map fst (nodes_dict g) \<and>
   (\<forall>k'. k' \<noteq> n \<longrightarrow> get_node_by_id k' (snd (update_node n u g)) = get_node_by_id k' g)"
  by (simp add: update_node_def Let_def get_node_by_id_def record_update_def keys_map_entry
      map_of_map_entry_other)

lemma update_edge_frame:
  "nodes_dict (snd (update_edge k u g)) = nodes_dict g \<and>
   node_counter (snd (update_edge k u g)) = node_counter g \<and>
   edge_counter (snd (update_edge k u g)) = edge_counter g \<and>
   map fst (edges_dict (snd (update_edge k u g))) = map fst (edges_dict g) \<and>
   (\<forall>k'. k' \<noteq> k \<longrightarrow> get_edge_by_id k' (snd (update_edge k u g)) = get_edge_by_id k' g)"
  by (simp add: update_edge_def Let_def get_edge_by_id_def record_update_def record_set_def
      keys_map_entry map_of_map_entry_other split: option.splits)

lemma update_edge_returns:
  assumes "map_of (edges_dict g) k = Some r"
  shows "\<exists>e. fst (update_edge k u g) = Some e \<and>
             get_edge_by_id k (snd (update_edge k u g)) = Some e \<and>
             (\<forall>f. f \<noteq> ''weight'' \<or> u ''duration'' = None \<longrightarrow>
                  (u f = None \<longrightarrow> e f = r f) \<and> (\<forall>v. u f = Some v \<longrightarrow> e f = Some v)) \<and>
             (\<forall>d. u ''duration'' = Some d \<longrightarrow> e ''weight'' = Some d)"
proof (cases "u ''duration''")
  case None
  have "map_of (record_update k u (edges_dict g)) k = Some (r ++ u)"
    using assms by (rule map_of_record_update)
  then show ?thesis
    using update_edge_present_plain [of g k r u, OF assms None] None
    by (simp add: get_edge_by_id_def map_add_def)
next
  case (Some d)
  have "map_of (record_set k ''weight'' d (record_update k u (edges_dict g))) k =
          Some ((r ++ u)(''weight'' \<mapsto> d))"
    using assms by (intro map_of_record_set map_of_record_update)
  then show ?thesis
    using update_edge_present_duration [of g k r u d, OF assms Some] Some
    by (simp add: get_edge_by_id_def map_add_def)
qed

lemma update_node_returns:
  assumes "map_of (nodes_dict g) n = Some r"
  shows "\<exists>e. fst (update_node n u g) = Some e \<and>
             get_node_by_id n (snd (update_node n u g)) = Some e \<and>
             (\<forall>f. (u f = None \<longrightarrow> e f = r f) \<and> (\<forall>v. u f = Some v \<longrightarrow> e f = Some v))"
proof -
  have "map_of (record_update n u (nodes_dict g)) n = Some (r ++ u)"
    using assms by (rule map_of_record_update)
  then show ?thesis
    using update_node_present [OF assms]
    by (simp add: get_node_by_id_def map_add_def)
qed

lemma update_node_field:
  assumes "map_of (nodes_dict g) n = Some r" and "u f = Some v"
  shows "\<exists>e. get_node_by_id n (snd (update_node n u g)) = Some e \<and> e f = Some v"
proof -
  have "get_node_by_id n (snd (update_node n u g)) = Some (r ++ u)"
    using update_node_present [of g n r u, OF assms(1)] map_of_record_update [OF assms(1), of u]
    by (simp add: get_node_by_id_def)
  moreover have "(r ++ u) f = Some v" using assms(2) by (simp add: map_add_def)
  ultimately show ?thesis by simp
qed

lemma update_edge_field:
  assumes "map_of (edges_dict g) k = Some r" and "u f = Some v" and "f \<noteq> ''weight''"
  shows "\<exists>e. get_edge_by_id k (snd (update_edge k u g)) = Some e \<and> e f = Some v"
proof -
  obtain e where e: "get_edge_by_id k (snd (update_edge k u g)) = Some e"
    and m: "\<forall>f. f \<noteq> ''weight'' \<or> u ''duration'' = None \<longrightarrow>
                  (u f = None \<longrightarrow> e f = r f) \<and> (\<forall>v. u f = Some v \<longrightarrow> e f = Some v)"
    using update_edge_returns [of g k r u, OF assms(1)] by blast
  from m assms(3) have "\<forall>v. u f = Some v \<longrightarrow> e f = Some v" by blast
  with assms(2) have "e f = Some v" by blast
  with e show ?thesis by blast
qed

lemma update_node_absent_stays:
  assumes "get_node_by_id k' g = None"
  shows "get_node_by_id k' (snd (update_node k u g)) = None"
proof (cases "k' = k")
  case True
  with assms have "\<not> contains k (nodes_dict g)"
    by (simp add: get_node_by_id_def contains_map_of)
  then show ?thesis using assms True by (simp add: update_node_absent)
next
  case False
  then show ?thesis using update_node_frame [of k u g] assms by simp
qed

lemma update_edge_absent_stays:
  assumes "get_edge_by_id k' g = None"
  shows "get_edge_by_id k' (snd (update_edge k u g)) = None"
proof (cases "k' = k")
  case True
  with assms have "\<not> contains k (edges_dict g)"
    by (simp add: get_edge_by_id_def contains_map_of)
  then show ?thesis using assms True by (simp add: update_edge_absent)
next
  case False
  then show ?thesis using update_edge_frame [of k u g] assms by simp
qed

subsection \<open>Keys after a call\<close>

lemma del_all_keys: "fst ` set (snd (del_all ks d)) \<subseteq> fst ` set d"
proof (induction ks arbitrary: d)
  case Nil
  then show ?case by simp
next
  case (Cons k ks)
  show ?case
  proof (cases "contains k d")
    case True
    have "fst ` set (snd (del_all ks (AList.delete k d))) \<subseteq> fst ` set (AList.delete k d)"
      by (rule Cons.IH)
    also have "\<dots> \<subseteq> fst ` set d" by (rule AList.dom_delete_subset)
    finally show ?thesis using True by simp
  next
    case False
    then show ?thesis by simp
  qed
qed

lemma delete_node_keys:
  "fst ` set (nodes_dict (snd (delete_node n g))) \<subseteq> fst ` set (nodes_dict g) \<and>
   fst ` set (edges_dict (snd (delete_node n g))) \<subseteq> fst ` set (edges_dict g)"
proof (cases "contains n (nodes_dict g)")
  case False
  then show ?thesis by (simp add: delete_node_absent)
next
  case True
  have nd: "fst ` set (AList.delete n (nodes_dict g)) \<subseteq> fst ` set (nodes_dict g)"
    by (rule AList.dom_delete_subset)
  show ?thesis
  proof (cases "edges_to_remove n (edges_dict g)")
    case (Inl e)
    then show ?thesis using True nd by (simp add: delete_node_def Let_def)
  next
    case (Inr ids)
    obtain r d where rd: "del_all ids (edges_dict g) = (r, d)" by (cases "del_all ids (edges_dict g)")
    have "fst ` set d \<subseteq> fst ` set (edges_dict g)"
      using del_all_keys [of ids "edges_dict g"] by (simp add: rd)
    then show ?thesis using True nd Inr rd
      by (cases r) (simp_all add: delete_node_def Let_def)
  qed
qed

lemma exec_keys:
  "fst ` set (nodes_dict (exec c g)) \<subseteq> insert (node_counter g) (fst ` set (nodes_dict g)) \<and>
   fst ` set (edges_dict (exec c g)) \<subseteq> insert (edge_counter g) (fst ` set (edges_dict g))"
proof (cases c)
  case (AddNode name x y)
  then show ?thesis by (auto simp: add_node_def Let_def AList.dom_update)
next
  case (UpdateNode n u)
  then show ?thesis
    by (auto simp: update_node_def Let_def record_update_def AList.dom_map_entry)
next
  case (DeleteNode n)
  then show ?thesis using delete_node_keys [of n g] by auto
next
  case (AddEdge f t d co p q)
  then show ?thesis by (auto simp: add_edge_def Let_def AList.dom_update)
next
  case (UpdateEdge k u)
  then show ?thesis
    by (auto simp: update_edge_def Let_def record_update_def record_set_def AList.dom_map_entry
        split: option.splits)
next
  case (DeleteEdge k)
  have "fst ` set (AList.delete k (edges_dict g)) \<subseteq> fst ` set (edges_dict g)"
    by (rule AList.dom_delete_subset)
  then show ?thesis using DeleteEdge by (auto simp: delete_edge_def)
next
  case ClearAll
  then show ?thesis by (simp add: clear_all_def)
qed

section \<open>Properties of the store\<close>

text \<open>
  C1. In every state the store can reach, \<^verbatim>\<open>delete_node\<close> on an id that is a key of the
  node dictionary returns \<^verbatim>\<open>True\<close>; afterwards no edge whose \<^verbatim>\<open>from\<close> or \<^verbatim>\<open>to\<close>
  field equals the id is left, and the edges that are left are exactly the edges that were
  not incident to the id, unchanged and in their order.
\<close>

theorem delete_node_cascade:
  assumes "reachable g" and "contains node_id (nodes_dict g)"
  shows "fst (delete_node node_id g) = Inr True \<and>
         (\<forall>e \<in> snd ` set (edges_dict (snd (delete_node node_id g))). \<not> touches node_id e) \<and>
         edges_dict (snd (delete_node node_id g)) =
           filter (\<lambda>p. \<not> touches node_id (snd p)) (edges_dict g)"
proof -
  have w: "wf g" using assms(1) by (rule reachable_wf)
  have "delete_node node_id g =
          (Inr True, g\<lparr>nodes_dict := AList.delete node_id (nodes_dict g),
                       edges_dict := filter (\<lambda>p. \<not> touches node_id (snd p)) (edges_dict g)\<rparr>)"
    using assms(2) w by (intro delete_node_present) (simp_all add: wf_def)
  then show ?thesis by auto
qed

theorem delete_node_cascade_witness:
  "reachable (run example_calls GraphData_init) \<and>
   contains 1 (nodes_dict (run example_calls GraphData_init)) \<and>
   fst (delete_node 1 (run example_calls GraphData_init)) = Inr True \<and>
   edges_dict (snd (delete_node 1 (run example_calls GraphData_init))) = []"
proof -
  have r: "reachable (run example_calls GraphData_init)"
    by (rule reachable_run [OF reachable_init])
  have c: "contains 1 (nodes_dict (run example_calls GraphData_init))"
    by (simp add: example_nodes contains_def)
  have t: "touches 1 (edge_properties 1 1 2 (PInt 3) (PInt 10) [] [])"
    by (simp add: touches_def equals_id_def edge_properties_def)
  show ?thesis using r c delete_node_cascade [OF r c] t by (simp add: example_edges)
qed


text \<open>
  C2. When \<^verbatim>\<open>from_node\<close> or \<^verbatim>\<open>to_node\<close> is not a key of the node dictionary,
  \<^verbatim>\<open>add_edge\<close> returns \<^verbatim>\<open>None\<close> and the store is the store it was called on: both
  dictionaries and both counters, the edge counter among them, are unchanged.
\<close>

theorem add_edge_missing_endpoint:
  assumes "\<not> contains from_node (nodes_dict g) \<or> \<not> contains to_node (nodes_dict g)"
  shows "add_edge from_node to_node duration cost prerequisites postrequisites g = (None, g)"
  using assms by (auto simp: add_edge_def)

theorem add_edge_missing_endpoint_witness:
  "contains 1 (nodes_dict (run example_calls GraphData_init)) \<and>
   \<not> contains 999 (nodes_dict (run example_calls GraphData_init)) \<and>
   add_edge 1 999 (PInt 0) (PInt 0) [] [] (run example_calls GraphData_init) =
     (None, run example_calls GraphData_init) \<and>
   edge_counter (snd (add_edge 1 999 (PInt 0) (PInt 0) [] [] (run example_calls GraphData_init))) = 2"
proof -
  have p: "contains 1 (nodes_dict (run example_calls GraphData_init))"
    by (simp add: example_nodes contains_def)
  have m: "\<not> contains 999 (nodes_dict (run example_calls GraphData_init))"
    by (simp add: example_nodes contains_def)
  then have h: "\<not> contains 1 (nodes_dict (run example_calls GraphData_init)) \<or>
                \<not> contains 999 (nodes_dict (run example_calls GraphData_init))" ..
  show ?thesis
    using p m add_edge_missing_endpoint [OF h, of "PInt 0" "PInt 0" "[]" "[]"] by (simp add: example_counters)
qed

text \<open>
  C3. The edge that a successful \<^verbatim>\<open>add_edge\<close> returns has \<^verbatim>\<open>weight\<close> equal to its
  \<^verbatim>\<open>duration\<close> argument. For an edge id that is in the store and an update that has the key
  \<^verbatim>\<open>duration\<close>, \<^verbatim>\<open>update_edge\<close> returns (and stores) an edge whose \<^verbatim>\<open>weight\<close> and
  \<^verbatim>\<open>duration\<close> are both the new duration, whatever \<^verbatim>\<open>weight\<close> the update itself carries.
\<close>

theorem weight_follows_duration:
  "(contains from_node (nodes_dict g) \<and> contains to_node (nodes_dict g) \<longrightarrow>
      (\<exists>e. fst (add_edge from_node to_node duration cost pre post g) = Some e \<and>
           e ''duration'' = Some (PNum duration) \<and> e ''weight'' = Some (PNum duration))) \<and>
   (contains edge_id (edges_dict g) \<and> updates ''duration'' = Some d \<longrightarrow>
      (\<exists>e. fst (update_edge edge_id updates g) = Some e \<and>
           get_edge_by_id edge_id (snd (update_edge edge_id updates g)) = Some e \<and>
           e ''duration'' = Some d \<and> e ''weight'' = Some d))"
proof (intro conjI impI)
  assume "contains from_node (nodes_dict g) \<and> contains to_node (nodes_dict g)"
  then show "\<exists>e. fst (add_edge from_node to_node duration cost pre post g) = Some e \<and>
           e ''duration'' = Some (PNum duration) \<and> e ''weight'' = Some (PNum duration)"
    by (simp add: add_edge_def Let_def edge_properties_def)
next
  assume a: "contains edge_id (edges_dict g) \<and> updates ''duration'' = Some d"
  then obtain r where r: "map_of (edges_dict g) edge_id = Some r"
    by (auto simp: contains_map_of)
  have "map_of (record_set edge_id ''weight'' d (record_update edge_id updates (edges_dict g)))
          edge_id = Some ((r ++ updates)(''weight'' \<mapsto> d))"
    unfolding record_set_def record_update_def
    by (intro map_of_map_entry_same) (rule r)
  moreover have "((r ++ updates)(''weight'' \<mapsto> d)) ''duration'' = Some d" using a by simp
  ultimately show "\<exists>e. fst (update_edge edge_id updates g) = Some e \<and>
           get_edge_by_id edge_id (snd (update_edge edge_id updates g)) = Some e \<and>
           e ''duration'' = Some d \<and> e ''weight'' = Some d"
    using a by (simp add: update_edge_def Let_def get_edge_by_id_def)
qed

theorem weight_follows_duration_witness:
  "(contains 1 (nodes_dict (run example_calls GraphData_init)) \<and>
    contains 2 (nodes_dict (run example_calls GraphData_init))) \<and>
   (contains 1 (edges_dict (run example_calls GraphData_init)) \<and>
    [''weight'' \<mapsto> PNum (PInt 7), ''duration'' \<mapsto> PNum (PFloat (Finite 5))] ''duration'' = Some (PNum (PFloat (Finite 5)))) \<and>
   (\<exists>e. fst (update_edge 1 [''weight'' \<mapsto> PNum (PInt 7), ''duration'' \<mapsto> PNum (PFloat (Finite 5))]
              (run example_calls GraphData_init)) = Some e \<and>
        e ''duration'' = Some (PNum (PFloat (Finite 5))) \<and> e ''weight'' = Some (PNum (PFloat (Finite 5))))"
proof -
  have n: "contains 1 (nodes_dict (run example_calls GraphData_init)) \<and>
           contains 2 (nodes_dict (run example_calls GraphData_init))"
    by (simp add: example_nodes contains_def)
  have e: "contains 1 (edges_dict (run example_calls GraphData_init)) \<and>
           [''weight'' \<mapsto> PNum (PInt 7), ''duration'' \<mapsto> PNum (PFloat (Finite 5))] ''duration'' = Some (PNum (PFloat (Finite 5)))"
    by (simp add: example_edges contains_def)
  show ?thesis
    using n e
      weight_follows_duration [of 1 "run example_calls GraphData_init" 2 "PInt 0" "PInt 0" "[]" "[]" 1
        "[''weight'' \<mapsto> PNum (PInt 7), ''duration'' \<mapsto> PNum (PFloat (Finite 5))]"
        "PNum (PFloat (Finite 5))"]
    by blast
qed

text \<open>
  C6. \<^verbatim>\<open>clear_all\<close> leaves both dictionaries empty and both counters at 1, from any
  state; an \<^verbatim>\<open>add_node\<close> right after it returns a node with id 1, stored under key 1.
\<close>

theorem clear_all_resets:
  "nodes_dict (clear_all g) = [] \<and> edges_dict (clear_all g) = [] \<and>
   node_counter (clear_all g) = 1 \<and> edge_counter (clear_all g) = 1 \<and>
   fst (add_node name x y (clear_all g)) ''id'' = Some (PNum (PInt 1)) \<and>
   nodes_dict (snd (add_node name x y (clear_all g))) = [(1, fst (add_node name x y (clear_all g)))]"
  by (simp add: clear_all_def add_node_def Let_def node_properties_def)

text \<open>
  C8. In every reachable state \<^verbatim>\<open>delete_node\<close> and \<^verbatim>\<open>delete_edge\<close> return \<^verbatim>\<open>True\<close>
  exactly when the id is a key of their dictionary; when they return \<^verbatim>\<open>False\<close> the store is
  unchanged. A successful \<^verbatim>\<open>delete_node\<close> is applied in full: the store it leaves is the
  old store without the one node of that id and without the edges incident to it, every
  other node and edge and both counters as they were. A successful \<^verbatim>\<open>delete_edge\<close>
  changes only the edge dictionary, from which it removes the one entry with that id and
  nothing else.
\<close>

theorem delete_all_or_nothing:
  assumes "reachable g"
  shows "fst (delete_node node_id g) = Inr (contains node_id (nodes_dict g)) \<and>
         (\<not> contains node_id (nodes_dict g) \<longrightarrow> snd (delete_node node_id g) = g) \<and>
         (contains node_id (nodes_dict g) \<longrightarrow>
            snd (delete_node node_id g) =
              g\<lparr>nodes_dict := filter (\<lambda>p. fst p \<noteq> node_id) (nodes_dict g),
                edges_dict := filter (\<lambda>p. \<not> touches node_id (snd p)) (edges_dict g)\<rparr> \<and>
            length (nodes_dict (snd (delete_node node_id g))) + 1 = length (nodes_dict g)) \<and>
         fst (delete_edge edge_id g) = contains edge_id (edges_dict g) \<and>
         (\<not> contains edge_id (edges_dict g) \<longrightarrow> snd (delete_edge edge_id g) = g) \<and>
         (contains edge_id (edges_dict g) \<longrightarrow>
            snd (delete_edge edge_id g) =
              g\<lparr>edges_dict := filter (\<lambda>p. fst p \<noteq> edge_id) (edges_dict g)\<rparr> \<and>
            length (edges_dict (snd (delete_edge edge_id g))) + 1 = length (edges_dict g))"
proof -
  have w: "wf g" using assms by (rule reachable_wf)
  have p: "contains node_id (nodes_dict g) \<Longrightarrow>
           delete_node node_id g =
             (Inr True, g\<lparr>nodes_dict := filter (\<lambda>p. fst p \<noteq> node_id) (nodes_dict g),
                          edges_dict := filter (\<lambda>p. \<not> touches node_id (snd p)) (edges_dict g)\<rparr>)"
    using w delete_node_present [of node_id g] by (simp add: wf_def delete_filter)
  have ln: "contains node_id (nodes_dict g) \<Longrightarrow>
            length (filter (\<lambda>p. fst p \<noteq> node_id) (nodes_dict g)) + 1 = length (nodes_dict g)"
    using w delete_length [of "nodes_dict g" node_id] by (simp add: wf_def delete_filter)
  have le: "contains edge_id (edges_dict g) \<Longrightarrow>
            length (filter (\<lambda>p. fst p \<noteq> edge_id) (edges_dict g)) + 1 = length (edges_dict g)"
    using w delete_length [of "edges_dict g" edge_id] by (simp add: wf_def delete_filter)
  have n: "fst (delete_node node_id g) = Inr (contains node_id (nodes_dict g))"
    using p by (cases "contains node_id (nodes_dict g)") (simp_all add: delete_node_absent)
  show ?thesis using n p ln le by (simp add: delete_node_absent delete_edge_def delete_filter)
qed

theorem delete_all_or_nothing_witness:
  "reachable (run example_calls GraphData_init) \<and>
   \<not> contains 7 (nodes_dict (run example_calls GraphData_init)) \<and>
   contains 1 (nodes_dict (run example_calls GraphData_init)) \<and>
   \<not> contains 9 (edges_dict (run example_calls GraphData_init)) \<and>
   contains 1 (edges_dict (run example_calls GraphData_init)) \<and>
   fst (delete_node 7 (run example_calls GraphData_init)) = Inr False \<and>
   snd (delete_node 7 (run example_calls GraphData_init)) = run example_calls GraphData_init \<and>
   fst (delete_node 1 (run example_calls GraphData_init)) = Inr True \<and>
   nodes_dict (snd (delete_node 1 (run example_calls GraphData_init))) =
     [(2, node_properties 2 ''B'' (PInt 100) (PInt 100))] \<and>
   edges_dict (snd (delete_node 1 (run example_calls GraphData_init))) = [] \<and>
   fst (delete_edge 9 (run example_calls GraphData_init)) = False \<and>
   snd (delete_edge 9 (run example_calls GraphData_init)) = run example_calls GraphData_init \<and>
   fst (delete_edge 1 (run example_calls GraphData_init)) = True \<and>
   nodes_dict (snd (delete_edge 1 (run example_calls GraphData_init))) =
     nodes_dict (run example_calls GraphData_init) \<and>
   edges_dict (snd (delete_edge 1 (run example_calls GraphData_init))) = []"
proof -
  let ?g = "run example_calls GraphData_init"
  have r: "reachable ?g" by (rule reachable_run [OF reachable_init])
  have n7: "\<not> contains 7 (nodes_dict ?g)" by (simp add: example_nodes contains_def)
  have n1: "contains 1 (nodes_dict ?g)" by (simp add: example_nodes contains_def)
  have e9: "\<not> contains 9 (edges_dict ?g)" by (simp add: example_edges contains_def)
  have e1: "contains 1 (edges_dict ?g)" by (simp add: example_edges contains_def)
  have t: "touches 1 (edge_properties 1 1 2 (PInt 3) (PInt 10) [] [])"
    by (simp add: touches_def equals_id_def edge_properties_def)
  note a = delete_all_or_nothing [OF r, of 7 9]
  note b = delete_all_or_nothing [OF r, of 1 1]
  have a1: "fst (delete_node 7 ?g) = Inr False" using a n7 by simp
  have a2: "snd (delete_node 7 ?g) = ?g" using a n7 by simp
  have a3: "fst (delete_edge 9 ?g) = False" using a e9 by simp
  have a4: "snd (delete_edge 9 ?g) = ?g" using a e9 by simp
  have b1: "fst (delete_node 1 ?g) = Inr True" using b n1 by simp
  have b2: "snd (delete_node 1 ?g) =
              ?g\<lparr>nodes_dict := filter (\<lambda>p. fst p \<noteq> 1) (nodes_dict ?g),
                  edges_dict := filter (\<lambda>p. \<not> touches 1 (snd p)) (edges_dict ?g)\<rparr>"
    using b n1 by simp
  have b3: "fst (delete_edge 1 ?g) = True" using b e1 by simp
  have b4: "snd (delete_edge 1 ?g) =
              ?g\<lparr>edges_dict := filter (\<lambda>p. fst p \<noteq> 1) (edges_dict ?g)\<rparr>"
    using b e1 by simp
  have c1: "nodes_dict (snd (delete_node 1 ?g)) = [(2, node_properties 2 ''B'' (PInt 100) (PInt 100))]"
    unfolding b2 by (simp add: example_nodes)
  have c2: "edges_dict (snd (delete_node 1 ?g)) = []"
    unfolding b2 using t by (simp add: example_edges)
  have c3: "nodes_dict (snd (delete_edge 1 ?g)) = nodes_dict ?g" unfolding b4 by simp
  have c4: "edges_dict (snd (delete_edge 1 ?g)) = []" unfolding b4 by (simp add: example_edges)
  show ?thesis by (intro conjI r n7 n1 e9 e1 a1 a2 b1 c1 c2 a3 a4 b3 c3 c4)
qed

text \<open>
  C9. In every state reachable from a fresh store, every key of the node dictionary is
  below the node counter and every key of the edge dictionary is below the edge counter, so
  neither counter is a key in use. \<^verbatim>\<open>add_node\<close> gives the new record the node counter
  as its id and stores it under that key, and a successful \<^verbatim>\<open>add_edge\<close> does the same
  with the edge counter: the new record is appended to the dictionary, and no record that
  was there is replaced.
\<close>

theorem keys_below_counters:
  assumes "reachable g"
  shows "(\<forall>k \<in> fst ` set (nodes_dict g). k < node_counter g) \<and>
         (\<forall>k \<in> fst ` set (edges_dict g). k < edge_counter g) \<and>
         \<not> contains (node_counter g) (nodes_dict g) \<and>
         \<not> contains (edge_counter g) (edges_dict g) \<and>
         fst (add_node name x y g) ''id'' = Some (PNum (PInt (node_counter g))) \<and>
         nodes_dict (snd (add_node name x y g)) =
           nodes_dict g @ [(node_counter g, fst (add_node name x y g))] \<and>
         (contains from_node (nodes_dict g) \<and> contains to_node (nodes_dict g) \<longrightarrow>
            (\<exists>e. fst (add_edge from_node to_node duration cost pre post g) = Some e \<and>
                 e ''id'' = Some (PNum (PInt (edge_counter g))) \<and>
                 edges_dict (snd (add_edge from_node to_node duration cost pre post g)) =
                   edges_dict g @ [(edge_counter g, e)]))"
proof -
  have "wf g" using assms by (rule reachable_wf)
  then have kn: "keys_below (node_counter g) (nodes_dict g)"
    and ke: "keys_below (edge_counter g) (edges_dict g)"
    by (simp_all add: wf_def)
  have fn: "\<not> contains (node_counter g) (nodes_dict g)" using kn by (rule keys_below_fresh)
  have fe: "\<not> contains (edge_counter g) (edges_dict g)" using ke by (rule keys_below_fresh)
  have below: "(\<forall>k \<in> fst ` set (nodes_dict g). k < node_counter g) \<and>
               (\<forall>k \<in> fst ` set (edges_dict g). k < edge_counter g)"
    using kn ke unfolding keys_below_def by blast
  have an: "nodes_dict (snd (add_node name x y g)) =
              nodes_dict g @ [(node_counter g, fst (add_node name x y g))]"
    using fn update_fresh [of "node_counter g" "nodes_dict g"]
    by (simp add: add_node_def Let_def contains_def)
  have ai: "fst (add_node name x y g) ''id'' = Some (PNum (PInt (node_counter g)))"
    using add_node_result by blast
  have ei: "edge_properties (edge_counter g) from_node to_node duration cost pre post ''id'' =
              Some (PNum (PInt (edge_counter g)))"
    by (simp add: edge_properties_def)
  have ae: "contains from_node (nodes_dict g) \<and> contains to_node (nodes_dict g) \<Longrightarrow>
            \<exists>e. fst (add_edge from_node to_node duration cost pre post g) = Some e \<and>
                 e ''id'' = Some (PNum (PInt (edge_counter g))) \<and>
                 edges_dict (snd (add_edge from_node to_node duration cost pre post g)) =
                   edges_dict g @ [(edge_counter g, e)]"
    using fe update_fresh [of "edge_counter g" "edges_dict g"] ei
    by (simp add: add_edge_def Let_def contains_def)
  have ae': "contains from_node (nodes_dict g) \<and> contains to_node (nodes_dict g) \<longrightarrow>
            (\<exists>e. fst (add_edge from_node to_node duration cost pre post g) = Some e \<and>
                 e ''id'' = Some (PNum (PInt (edge_counter g))) \<and>
                 edges_dict (snd (add_edge from_node to_node duration cost pre post g)) =
                   edges_dict g @ [(edge_counter g, e)])"
    by (rule impI) (rule ae)
  show ?thesis by (intro conjI below [THEN conjunct1] below [THEN conjunct2] fn fe ai an ae')
qed

theorem keys_below_counters_witness:
  "reachable (run example_calls GraphData_init) \<and>
   contains 1 (nodes_dict (run example_calls GraphData_init)) \<and>
   contains 2 (nodes_dict (run example_calls GraphData_init)) \<and>
   \<not> contains 3 (nodes_dict (run example_calls GraphData_init)) \<and>
   \<not> contains 2 (edges_dict (run example_calls GraphData_init)) \<and>
   fst (add_node ''C'' (PInt 0) (PInt 0) (run example_calls GraphData_init)) ''id'' =
     Some (PNum (PInt 3)) \<and>
   map fst (nodes_dict (snd (add_node ''C'' (PInt 0) (PInt 0) (run example_calls GraphData_init))))
     = [1, 2, 3] \<and>
   (\<exists>e. fst (add_edge 2 1 (PInt 0) (PInt 0) [] [] (run example_calls GraphData_init)) = Some e \<and>
        e ''id'' = Some (PNum (PInt 2)) \<and>
        map fst (edges_dict (snd (add_edge 2 1 (PInt 0) (PInt 0) [] []
          (run example_calls GraphData_init)))) = [1, 2])"
proof -
  let ?g = "run example_calls GraphData_init"
  have r: "reachable ?g" by (rule reachable_run [OF reachable_init])
  have c1: "contains 1 (nodes_dict ?g)" by (simp add: example_nodes contains_def)
  have c2: "contains 2 (nodes_dict ?g)" by (simp add: example_nodes contains_def)
  have nc: "node_counter ?g = 3" and ec: "edge_counter ?g = 2"
    using example_counters by simp_all
  note t = keys_below_counters [OF r, of "''C''" "PInt 0" "PInt 0" 2 1 "PInt 0" "PInt 0" "[]" "[]"]
  have f3: "\<not> contains 3 (nodes_dict ?g)" using t unfolding nc by simp
  have f2: "\<not> contains 2 (edges_dict ?g)" using t unfolding ec by simp
  have i3: "fst (add_node ''C'' (PInt 0) (PInt 0) ?g) ''id'' = Some (PNum (PInt 3))"
    using t unfolding nc by simp
  have k3: "map fst (nodes_dict (snd (add_node ''C'' (PInt 0) (PInt 0) ?g))) = [1, 2, 3]"
    using t unfolding nc by (simp add: example_nodes)
  have "\<exists>e. fst (add_edge 2 1 (PInt 0) (PInt 0) [] [] ?g) = Some e \<and>
             e ''id'' = Some (PNum (PInt (edge_counter ?g))) \<and>
             edges_dict (snd (add_edge 2 1 (PInt 0) (PInt 0) [] [] ?g)) =
               edges_dict ?g @ [(edge_counter ?g, e)]"
    using t c1 c2 by simp
  then obtain e where e: "fst (add_edge 2 1 (PInt 0) (PInt 0) [] [] ?g) = Some e"
      "e ''id'' = Some (PNum (PInt 2))"
      "edges_dict (snd (add_edge 2 1 (PInt 0) (PInt 0) [] [] ?g)) = edges_dict ?g @ [(2, e)]"
    unfolding ec by (elim exE conjE)
  have k2: "map fst (edges_dict (snd (add_edge 2 1 (PInt 0) (PInt 0) [] [] ?g))) = [1, 2]"
    unfolding e(3) by (simp add: example_edges)
  have E: "\<exists>e. fst (add_edge 2 1 (PInt 0) (PInt 0) [] [] ?g) = Some e \<and>
             e ''id'' = Some (PNum (PInt 2)) \<and>
             map fst (edges_dict (snd (add_edge 2 1 (PInt 0) (PInt 0) [] [] ?g))) = [1, 2]"
    by (intro exI [of _ e] conjI e(1) e(2) k2)
  show ?thesis by (intro conjI r c1 c2 f3 f2 i3 k3 E)
qed

text \<open>
  C4. \<^verbatim>\<open>add_node\<close> has no failing branch: for every name and position it returns a
  record whose \<^verbatim>\<open>id\<close> is the node counter, stores it under that key and increments the
  counter. Along any sequence of calls without \<^verbatim>\<open>clear_all\<close> on a fresh store, deletions
  and updates included, the ids of the nodes returned are 1, 2, ..., n in this order: each
  is one above the largest id assigned before it, so they increase strictly and none is
  assigned twice; the counter is then n + 1.
\<close>

theorem add_node_fresh_ids:
  "fst (add_node name x y g) ''id'' = Some (PNum (PInt (node_counter g))) \<and>
   map_of (nodes_dict (snd (add_node name x y g))) (node_counter g) =
     Some (fst (add_node name x y g)) \<and>
   node_counter (snd (add_node name x y g)) = node_counter g + 1 \<and>
   (ClearAll \<notin> set cs \<longrightarrow>
      map (\<lambda>p. p ''id'') (added_nodes cs GraphData_init) =
        map (\<lambda>i. Some (PNum (PInt i))) [1 .. int (length (added_nodes cs GraphData_init))] \<and>
      node_counter (run cs GraphData_init) = int (length (added_nodes cs GraphData_init)) + 1)"
proof -
  have "node_counter GraphData_init = 1" by (simp add: GraphData_init_def)
  then show ?thesis
    using add_node_result [of name x y g] added_nodes_ids [of cs GraphData_init] by simp
qed

theorem add_node_fresh_ids_witness:
  "ClearAll \<notin> set [AddNode [] (PInt 0) (PInt 0), DeleteNode 1, AddNode ''B'' (PInt 1) (PInt 1)] \<and>
   map (\<lambda>p. p ''id'')
     (added_nodes [AddNode [] (PInt 0) (PInt 0), DeleteNode 1, AddNode ''B'' (PInt 1) (PInt 1)] GraphData_init) =
     [Some (PNum (PInt 1)), Some (PNum (PInt 2))]"
proof -
  have h: "ClearAll \<notin> set [AddNode [] (PInt 0) (PInt 0), DeleteNode 1, AddNode ''B'' (PInt 1) (PInt 1)]" by simp
  have l: "int (length (added_nodes [AddNode [] (PInt 0) (PInt 0), DeleteNode 1, AddNode ''B'' (PInt 1) (PInt 1)]
             GraphData_init)) = 2" by simp
  have u: "[1 .. 2::int] = [1, 2]" by (simp add: upto_rec1)
  have i: "node_counter GraphData_init = 1" by (simp add: GraphData_init_def)
  show ?thesis
    using h add_node_fresh_ids [of "[]" "PInt 0" "PInt 0" GraphData_init
        "[AddNode [] (PInt 0) (PInt 0), DeleteNode 1, AddNode ''B'' (PInt 1) (PInt 1)]"]
    unfolding l u i by simp
qed





text \<open>
  C7. \<^verbatim>\<open>update_node\<close> on an id that is not in the store returns \<^verbatim>\<open>None\<close> and leaves the
  store unchanged. On an id that is in the store it returns, and stores under the same key,
  the old record with the supplied fields merged in: a field the update does not name keeps
  its value, a field it names (known or not) gets the supplied value; the other nodes, the
  keys, the edges and both counters are unchanged. \<^verbatim>\<open>update_edge\<close> does the same on
  edges, except that \<^verbatim>\<open>weight\<close> is set to the new duration when the update has a duration.
\<close>

theorem update_merges_fields:
  "(\<not> contains absent_node (nodes_dict g) \<longrightarrow> update_node absent_node updates g = (None, g)) \<and>
   (map_of (nodes_dict g) node_id = Some r \<longrightarrow>
      (\<exists>n. fst (update_node node_id updates g) = Some n \<and>
           get_node_by_id node_id (snd (update_node node_id updates g)) = Some n \<and>
           (\<forall>f. (updates f = None \<longrightarrow> n f = r f) \<and>
                (\<forall>v. updates f = Some v \<longrightarrow> n f = Some v)))) \<and>
   (edges_dict (snd (update_node node_id updates g)) = edges_dict g \<and>
    node_counter (snd (update_node node_id updates g)) = node_counter g \<and>
    edge_counter (snd (update_node node_id updates g)) = edge_counter g \<and>
    map fst (nodes_dict (snd (update_node node_id updates g))) = map fst (nodes_dict g) \<and>
    (\<forall>k'. k' \<noteq> node_id \<longrightarrow>
       get_node_by_id k' (snd (update_node node_id updates g)) = get_node_by_id k' g)) \<and>
   (\<not> contains absent_edge (edges_dict g) \<longrightarrow> update_edge absent_edge updates g = (None, g)) \<and>
   (map_of (edges_dict g) edge_id = Some r' \<longrightarrow>
      (\<exists>e. fst (update_edge edge_id updates g) = Some e \<and>
           get_edge_by_id edge_id (snd (update_edge edge_id updates g)) = Some e \<and>
           (\<forall>f. f \<noteq> ''weight'' \<or> updates ''duration'' = None \<longrightarrow>
                (updates f = None \<longrightarrow> e f = r' f) \<and>
                (\<forall>v. updates f = Some v \<longrightarrow> e f = Some v)) \<and>
           (\<forall>d. updates ''duration'' = Some d \<longrightarrow> e ''weight'' = Some d))) \<and>
   (nodes_dict (snd (update_edge edge_id updates g)) = nodes_dict g \<and>
    node_counter (snd (update_edge edge_id updates g)) = node_counter g \<and>
    edge_counter (snd (update_edge edge_id updates g)) = edge_counter g \<and>
    map fst (edges_dict (snd (update_edge edge_id updates g))) = map fst (edges_dict g) \<and>
    (\<forall>k'. k' \<noteq> edge_id \<longrightarrow>
       get_edge_by_id k' (snd (update_edge edge_id updates g)) = get_edge_by_id k' g))"
  using update_node_absent [of absent_node g updates]
    update_node_returns [of g node_id r updates]
    update_node_frame [of node_id updates g] update_edge_absent [of absent_edge g updates]
    update_edge_returns [of g edge_id r' updates] update_edge_frame [of edge_id updates g]
  by blast



theorem update_merges_fields_witness:
  "\<not> contains 7 (nodes_dict (run example_calls GraphData_init)) \<and>
   map_of (nodes_dict (run example_calls GraphData_init)) 1 =
     Some (node_properties 1 ''A'' (PInt 100) (PInt 100)) \<and>
   \<not> contains 9 (edges_dict (run example_calls GraphData_init)) \<and>
   map_of (edges_dict (run example_calls GraphData_init)) 1 =
     Some (edge_properties 1 1 2 (PInt 3) (PInt 10) [] []) \<and>
   (\<exists>n. fst (update_node 1 [''name'' \<mapsto> PStr ''Z'', ''colour'' \<mapsto> PStr ''red'']
              (run example_calls GraphData_init)) = Some n \<and>
        n ''name'' = Some (PStr ''Z'') \<and> n ''colour'' = Some (PStr ''red'') \<and>
        n ''x'' = Some (PNum (PInt 100))) \<and>
   (\<exists>e. fst (update_edge 1 [''name'' \<mapsto> PStr ''Z'', ''colour'' \<mapsto> PStr ''red'']
              (run example_calls GraphData_init)) = Some e \<and>
        e ''colour'' = Some (PStr ''red'') \<and> e ''cost'' = Some (PNum (PInt 10)) \<and>
        e ''weight'' = Some (PNum (PInt 3)))"
proof -
  let ?g = "run example_calls GraphData_init"
  let ?u = "[''name'' \<mapsto> PStr ''Z'', ''colour'' \<mapsto> PStr ''red'']"
  let ?r = "node_properties 1 ''A'' (PInt 100) (PInt 100)"
  let ?r' = "edge_properties 1 1 2 (PInt 3) (PInt 10) [] []"
  have a: "\<not> contains 7 (nodes_dict ?g)" by (simp add: example_nodes contains_def)
  have b: "map_of (nodes_dict ?g) 1 = Some ?r" by (simp add: example_nodes)
  have c: "\<not> contains 9 (edges_dict ?g)" by (simp add: example_edges contains_def)
  have d: "map_of (edges_dict ?g) 1 = Some ?r'" by (simp add: example_edges)
  have u1: "?u ''name'' = Some (PStr ''Z'')" by simp
  have u2: "?u ''colour'' = Some (PStr ''red'')" by simp
  have u3: "?u ''x'' = None" by simp
  have u4: "?u ''cost'' = None" by simp
  have u5: "?u ''weight'' = None" by simp
  have u6: "?u ''duration'' = None" by simp
  have x: "?r ''x'' = Some (PNum (PInt 100))" by (simp add: node_properties_def)
  have y1: "?r' ''cost'' = Some (PNum (PInt 10))" by (simp add: edge_properties_def)
  have y2: "?r' ''weight'' = Some (PNum (PInt 3))" by (simp add: edge_properties_def)
  note t = update_merges_fields [of 7 ?g ?u 1 ?r 9 1 ?r']
  note tn = t [THEN conjunct2, THEN conjunct1, THEN mp, OF b]
  note te = t [THEN conjunct2, THEN conjunct2, THEN conjunct2, THEN conjunct2, THEN conjunct1,
      THEN mp, OF d]
  from tn obtain n where n1: "fst (update_node 1 ?u ?g) = Some n"
    and n2: "\<forall>f. (?u f = None \<longrightarrow> n f = ?r f) \<and> (\<forall>v. ?u f = Some v \<longrightarrow> n f = Some v)"
    by (elim exE conjE)
  from te obtain e where e1: "fst (update_edge 1 ?u ?g) = Some e"
    and e2: "\<forall>f. f \<noteq> ''weight'' \<or> ?u ''duration'' = None \<longrightarrow>
               (?u f = None \<longrightarrow> e f = ?r' f) \<and> (\<forall>v. ?u f = Some v \<longrightarrow> e f = Some v)"
    by (elim exE conjE)
  have nn: "n ''name'' = Some (PStr ''Z'')"
    by (rule n2 [THEN spec, THEN conjunct2, THEN spec, THEN mp]) (rule u1)
  have nc: "n ''colour'' = Some (PStr ''red'')"
    by (rule n2 [THEN spec, THEN conjunct2, THEN spec, THEN mp]) (rule u2)
  have "n ''x'' = ?r ''x''"
    by (rule n2 [THEN spec, THEN conjunct1, THEN mp]) (rule u3)
  then have nx: "n ''x'' = Some (PNum (PInt 100))" by (simp only: x)
  note e3 = e2 [THEN spec, THEN mp, OF disjI2, OF u6]
  have ec: "e ''colour'' = Some (PStr ''red'')"
    by (rule e3 [THEN conjunct2, THEN spec, THEN mp]) (rule u2)
  have "e ''cost'' = ?r' ''cost''"
    by (rule e3 [THEN conjunct1, THEN mp]) (rule u4)
  then have eco: "e ''cost'' = Some (PNum (PInt 10))" by (simp only: y1)
  have "e ''weight'' = ?r' ''weight''"
    by (rule e3 [THEN conjunct1, THEN mp]) (rule u5)
  then have ew: "e ''weight'' = Some (PNum (PInt 3))" by (simp only: y2)
  have N: "\<exists>n. fst (update_node 1 ?u ?g) = Some n \<and> n ''name'' = Some (PStr ''Z'') \<and>
             n ''colour'' = Some (PStr ''red'') \<and> n ''x'' = Some (PNum (PInt 100))"
    by (intro exI [of _ n] conjI n1 nn nc nx)
  have E: "\<exists>e. fst (update_edge 1 ?u ?g) = Some e \<and> e ''colour'' = Some (PStr ''red'') \<and>
             e ''cost'' = Some (PNum (PInt 10)) \<and> e ''weight'' = Some (PNum (PInt 3))"
    by (intro exI [of _ e] conjI e1 ec eco ew)
  show ?thesis by (intro conjI a b c d N E)
qed

text \<open>
  C10. An update whose map has the key \<^verbatim>\<open>id\<close> rewrites the \<^verbatim>\<open>id\<close> field of the record
  and leaves the record under its key: a lookup of the old key returns a record with the
  new \<^verbatim>\<open>id\<close> field, a key under which nothing was stored still has nothing, and the keys
  of the dictionary are the same. This holds for \<^verbatim>\<open>update_node\<close> and for
  \<^verbatim>\<open>update_edge\<close>. No call moves a record to another key: after any call, the keys of
  a dictionary are among the keys it had and the id its counter would assign next.
\<close>

theorem update_id_keeps_key:
  "(map_of (nodes_dict g) k = Some r \<and> updates ''id'' = Some j \<longrightarrow>
      (\<exists>n. get_node_by_id k (snd (update_node k updates g)) = Some n \<and> n ''id'' = Some j) \<and>
      (\<forall>k'. get_node_by_id k' g = None \<longrightarrow>
            get_node_by_id k' (snd (update_node k updates g)) = None) \<and>
      map fst (nodes_dict (snd (update_node k updates g))) = map fst (nodes_dict g)) \<and>
   (map_of (edges_dict g) l = Some r' \<and> updates ''id'' = Some j \<longrightarrow>
      (\<exists>e. get_edge_by_id l (snd (update_edge l updates g)) = Some e \<and> e ''id'' = Some j) \<and>
      (\<forall>l'. get_edge_by_id l' g = None \<longrightarrow>
            get_edge_by_id l' (snd (update_edge l updates g)) = None) \<and>
      map fst (edges_dict (snd (update_edge l updates g))) = map fst (edges_dict g)) \<and>
   fst ` set (nodes_dict (exec c g)) \<subseteq> insert (node_counter g) (fst ` set (nodes_dict g)) \<and>
   fst ` set (edges_dict (exec c g)) \<subseteq> insert (edge_counter g) (fst ` set (edges_dict g))"
proof (intro conjI impI allI)
  assume a: "map_of (nodes_dict g) k = Some r \<and> updates ''id'' = Some j"
  show "\<exists>n. get_node_by_id k (snd (update_node k updates g)) = Some n \<and> n ''id'' = Some j"
    by (rule update_node_field [of g k r updates "''id''" j, OF conjunct1 [OF a] conjunct2 [OF a]])
next
  fix k' assume "get_node_by_id k' g = None"
  then show "get_node_by_id k' (snd (update_node k updates g)) = None"
    by (rule update_node_absent_stays)
next
  show "map fst (nodes_dict (snd (update_node k updates g))) = map fst (nodes_dict g)"
    by (rule update_node_frame [THEN conjunct2, THEN conjunct2, THEN conjunct2, THEN conjunct1])
next
  assume a: "map_of (edges_dict g) l = Some r' \<and> updates ''id'' = Some j"
  have ne: "''id'' \<noteq> ''weight''" by simp
  show "\<exists>e. get_edge_by_id l (snd (update_edge l updates g)) = Some e \<and> e ''id'' = Some j"
    by (rule update_edge_field [of g l r' updates "''id''" j, OF conjunct1 [OF a] conjunct2 [OF a] ne])
next
  fix l' assume "get_edge_by_id l' g = None"
  then show "get_edge_by_id l' (snd (update_edge l updates g)) = None"
    by (rule update_edge_absent_stays)
next
  show "map fst (edges_dict (snd (update_edge l updates g))) = map fst (edges_dict g)"
    by (rule update_edge_frame [THEN conjunct2, THEN conjunct2, THEN conjunct2, THEN conjunct1])
next
  show "fst ` set (nodes_dict (exec c g)) \<subseteq> insert (node_counter g) (fst ` set (nodes_dict g))"
    by (rule exec_keys [THEN conjunct1])
next
  show "fst ` set (edges_dict (exec c g)) \<subseteq> insert (edge_counter g) (fst ` set (edges_dict g))"
    by (rule exec_keys [THEN conjunct2])
qed

theorem update_id_keeps_key_witness:
  "(map_of (nodes_dict (run example_calls GraphData_init)) 1 =
      Some (node_properties 1 ''A'' (PInt 100) (PInt 100)) \<and> [''id'' \<mapsto> PNum (PInt 5)] ''id'' = Some (PNum (PInt 5))) \<and>
   (map_of (edges_dict (run example_calls GraphData_init)) 1 =
      Some (edge_properties 1 1 2 (PInt 3) (PInt 10) [] []) \<and> [''id'' \<mapsto> PNum (PInt 5)] ''id'' = Some (PNum (PInt 5))) \<and>
   (\<exists>n. get_node_by_id 1 (snd (update_node 1 [''id'' \<mapsto> PNum (PInt 5)]
              (run example_calls GraphData_init))) = Some n \<and> n ''id'' = Some (PNum (PInt 5))) \<and>
   get_node_by_id 5 (snd (update_node 1 [''id'' \<mapsto> PNum (PInt 5)]
      (run example_calls GraphData_init))) = None \<and>
   (\<exists>e. get_edge_by_id 1 (snd (update_edge 1 [''id'' \<mapsto> PNum (PInt 5)]
              (run example_calls GraphData_init))) = Some e \<and> e ''id'' = Some (PNum (PInt 5))) \<and>
   get_edge_by_id 5 (snd (update_edge 1 [''id'' \<mapsto> PNum (PInt 5)]
      (run example_calls GraphData_init))) = None"
proof -
  let ?g = "run example_calls GraphData_init"
  let ?u = "[''id'' \<mapsto> PNum (PInt 5)]"
  have n: "map_of (nodes_dict ?g) 1 = Some (node_properties 1 ''A'' (PInt 100) (PInt 100)) \<and>
           ?u ''id'' = Some (PNum (PInt 5))"
    by (simp add: example_nodes)
  have e: "map_of (edges_dict ?g) 1 = Some (edge_properties 1 1 2 (PInt 3) (PInt 10) [] []) \<and>
           ?u ''id'' = Some (PNum (PInt 5))"
    by (simp add: example_edges)
  have n5: "get_node_by_id 5 ?g = None" by (simp add: get_node_by_id_def example_nodes)
  have e5: "get_edge_by_id 5 ?g = None" by (simp add: get_edge_by_id_def example_edges)
  note t = update_id_keeps_key [of ?g 1 "node_properties 1 ''A'' (PInt 100) (PInt 100)" ?u "PNum (PInt 5)" 1
      "edge_properties 1 1 2 (PInt 3) (PInt 10) [] []" ClearAll]
  note tn = t [THEN conjunct1, THEN mp, OF n]
  note te = t [THEN conjunct2, THEN conjunct1, THEN mp, OF e]
  show ?thesis
    by (intro conjI n [THEN conjunct1] n [THEN conjunct2] e [THEN conjunct1]
        tn [THEN conjunct1] te [THEN conjunct1]
        tn [THEN conjunct2, THEN conjunct1, THEN spec, THEN mp, OF n5]
        te [THEN conjunct2, THEN conjunct1, THEN spec, THEN mp, OF e5])
qed


end
